theory Spec2Isabelle
  imports Main
begin

section \<open>logtop: the scheduling and lifecycle code of \<^verbatim>\<open>src/main.c\<close>\<close>

text \<open>
  The program reads lines from standard input, hands each one to the frequency engine
  (\<^verbatim>\<open>logtop_feed\<close>), redraws from a \<^verbatim>\<open>SIGALRM\<close> handler and prints a last report from
  \<^verbatim>\<open>at_exit\<close>, which runs at end of input and from the \<^verbatim>\<open>SIGINT\<close> handler.

  The frequency engine, the two renderers and the C library are not part of the file. Every
  call into them is recorded as an \<open>event\<close>, with the arguments the call site passes, so that
  what the code does is the list of events it produces, in order.
\<close>

subsection \<open>Observable calls\<close>

datatype signum = SIGINT | SIGALRM

text \<open>The third argument of \<^verbatim>\<open>setup_sighandler\<close>: a handler of the file, or \<^verbatim>\<open>NULL\<close>,
  which \<^verbatim>\<open>setup_sighandler\<close> turns into \<^verbatim>\<open>SIG_DFL\<close>.\<close>

datatype handler = SIG_DFL | on_sigint_h | update_display_h

datatype out_stream = Stdout | Stderr

datatype event =
    Sigaction signum int handler   \<comment> \<open>\<^verbatim>\<open>sigaction(signum, {sa_handler, sa_flags})\<close>\<close>
  | Alarm nat                      \<comment> \<open>\<^verbatim>\<open>alarm(seconds)\<close>\<close>
  | NewLogtop int                  \<comment> \<open>\<^verbatim>\<open>new_logtop(history_size)\<close>\<close>
  | LogtopFeed string              \<comment> \<open>\<^verbatim>\<open>logtop_feed(logtop, string)\<close>\<close>
  | DeleteLogtop                   \<comment> \<open>\<^verbatim>\<open>delete_logtop(logtop)\<close>\<close>
  | CursesSetup
  | CursesUpdate
  | CursesRelease
  | StdoutUpdate int int           \<comment> \<open>\<^verbatim>\<open>stdout_update(a, b)\<close>, both arguments as passed\<close>
  | Fflush                         \<comment> \<open>\<^verbatim>\<open>fflush(NULL)\<close>\<close>
  | Kill signum                    \<comment> \<open>\<^verbatim>\<open>kill(getpid(), sig)\<close>\<close>
  | Usage out_stream               \<comment> \<open>the two \<^verbatim>\<open>fprintf\<close> of \<^verbatim>\<open>usage_and_exit\<close>\<close>
  | Version                        \<comment> \<open>the \<^verbatim>\<open>fprintf\<close> of \<^verbatim>\<open>version_and_exit\<close>\<close>
  | Exit int                       \<comment> \<open>\<^verbatim>\<open>exit(code)\<close>, or \<^verbatim>\<open>main\<close> returning \<^verbatim>\<open>code\<close>\<close>

definition EXIT_SUCCESS :: int where "EXIT_SUCCESS = 0"
definition EXIT_FAILURE :: int where "EXIT_FAILURE = 1"
definition SA_RESTART :: int where "SA_RESTART = 0x10000000"

subsection \<open>The ingestion loop: \<^verbatim>\<open>run\<close>\<close>

definition NUL :: char where "NUL = CHR 0x00"
definition LF :: char where "LF = CHR 0x0A"
definition CR :: char where "CR = CHR 0x0D"

text \<open>
  \<^verbatim>\<open>getline(&string, &size, stdin)\<close> on a stream whose unread bytes are \<open>bs\<close>: at end of
  stream it returns \<open>-1\<close> (\<open>None\<close>); otherwise it reads up to and including the first line
  feed, or to the end of the stream when there is none, stores the bytes followed by a
  terminating \<^verbatim>\<open>NUL\<close> and returns their number. The result is the buffer, the returned
  length and the bytes left unread.
\<close>

definition getline :: "string \<Rightarrow> (string \<times> nat \<times> string) option" where
  "getline bs =
     (if bs = [] then None
      else (case dropWhile (\<lambda>c. c \<noteq> LF) bs of
              [] \<Rightarrow> Some (bs @ [NUL], length bs, [])
            | _ # rest \<Rightarrow>
                Some (takeWhile (\<lambda>c. c \<noteq> LF) bs @ [LF, NUL],
                      Suc (length (takeWhile (\<lambda>c. c \<noteq> LF) bs)), rest)))"

text \<open>
  The inner loop of \<^verbatim>\<open>run\<close>, on the buffer and \<^verbatim>\<open>str_length\<close>:
  \<^verbatim>\<open>while (str_length > 0 && (string[str_length - 1] == '\n' || string[str_length - 1] == '\r'))
      { string[str_length - 1] = '\0'; str_length -= 1; }\<close>
\<close>

fun strip_loop :: "string \<Rightarrow> nat \<Rightarrow> string \<times> nat" where
  "strip_loop string 0 = (string, 0)"
| "strip_loop string (Suc n) =
     (if string ! n = LF \<or> string ! n = CR then strip_loop (string[n := NUL]) n
      else (string, Suc n))"

text \<open>What a callee reading a \<^verbatim>\<open>char *\<close> sees of a buffer: the bytes before the first
  \<^verbatim>\<open>NUL\<close>.\<close>

definition c_string :: "string \<Rightarrow> string" where
  "c_string buf = takeWhile (\<lambda>c. c \<noteq> NUL) buf"

text \<open>One turn of the outer loop: \<^verbatim>\<open>getline\<close>, the inner loop, \<^verbatim>\<open>logtop_feed\<close>. \<open>None\<close> is
  the loop's exit, when \<^verbatim>\<open>getline\<close> has returned \<open>-1\<close>.\<close>

definition run_iter :: "string \<Rightarrow> (event \<times> string) option" where
  "run_iter bs =
     (case getline bs of
        None \<Rightarrow> None
      | Some (string, str_length, rest) \<Rightarrow>
          Some (LogtopFeed (c_string (fst (strip_loop string str_length))), rest))"

function run :: "string \<Rightarrow> event list" where
  "run bs = (case run_iter bs of None \<Rightarrow> [] | Some (e, rest) \<Rightarrow> e # run rest)"
  by pat_completeness auto
termination
proof (relation "measure length")
  fix bs :: string and x2 x y
  assume "run_iter bs = Some x2" and "(x, y) = x2"
  then have "length (dropWhile (\<lambda>c. c \<noteq> LF) bs) \<le> length bs \<Longrightarrow> length y < length bs"
    by (auto simp: run_iter_def getline_def split: if_splits list.splits)
  then show "(y, bs) \<in> measure length"
    by (simp add: length_dropWhile_le)
qed simp

declare run.simps [simp del]

text \<open>The raw lines the successive \<^verbatim>\<open>getline\<close> calls of \<^verbatim>\<open>run\<close> return, terminators
  included: the first \<^verbatim>\<open>str_length\<close> bytes of each buffer.\<close>

function raw_lines :: "string \<Rightarrow> string list" where
  "raw_lines bs =
     (case getline bs of None \<Rightarrow> [] | Some (buf, n, rest) \<Rightarrow> take n buf # raw_lines rest)"
  by pat_completeness auto
termination
proof (relation "measure length")
  fix bs :: string and x2 buf y n rest
  assume "getline bs = Some x2" and "(buf, y) = x2" and "(n, rest) = y"
  then have "length (dropWhile (\<lambda>c. c \<noteq> LF) bs) \<le> length bs \<Longrightarrow> length rest < length bs"
    by (auto simp: getline_def split: if_splits list.splits)
  then show "(rest, bs) \<in> measure length"
    by (simp add: length_dropWhile_le)
qed simp

declare raw_lines.simps [simp del]

text \<open>The argument \<^verbatim>\<open>run\<close> passes to \<^verbatim>\<open>logtop_feed\<close> for a raw line \<open>raw\<close>.\<close>

definition fed :: "string \<Rightarrow> string" where
  "fed raw = c_string (fst (strip_loop (raw @ [NUL]) (length raw)))"

definition is_eol :: "char \<Rightarrow> bool" where
  "is_eol c = (c = LF \<or> c = CR)"

text \<open>A line without its trailing run of carriage returns and line feeds.\<close>

definition strip_eol :: "string \<Rightarrow> string" where
  "strip_eol raw = rev (dropWhile is_eol (rev raw))"

subsection \<open>The process state: \<^verbatim>\<open>gl_env\<close>\<close>

text \<open>
  \<^verbatim>\<open>env_t\<close> is declared in \<^verbatim>\<open>main.h\<close>, which is not among the sources; the record has the
  fields \<^verbatim>\<open>main.c\<close> reads and writes. \<^verbatim>\<open>quiet\<close> only ever holds 0 or 1 and is tested for
  truth, so it is a \<open>bool\<close>; the numeric fields receive the results of \<^verbatim>\<open>atoi\<close> and \<^verbatim>\<open>time\<close>
  and are integers. \<^verbatim>\<open>last_update_time + interval\<close> is computed in \<^verbatim>\<open>time_t\<close>, far from its
  bounds for any clock value, and is modelled without wrap-around. The handle
  \<^verbatim>\<open>gl_env.logtop\<close> is opaque: the calls that create, feed and destroy it are events.
\<close>

record env =
  history_size :: int
  quiet :: bool
  last_update_time :: int
  line_by_line :: int
  interval :: int

subsection \<open>\<^verbatim>\<open>setup_sighandler\<close>, \<^verbatim>\<open>update_display\<close>, \<^verbatim>\<open>at_exit\<close>, \<^verbatim>\<open>on_sigint\<close>\<close>

text \<open>The call \<^verbatim>\<open>setup_sighandler\<close> makes: \<^verbatim>\<open>act\<close> is \<open>None\<close> for \<^verbatim>\<open>NULL\<close>.\<close>

definition setup_sighandler :: "signum \<Rightarrow> int \<Rightarrow> handler option \<Rightarrow> event" where
  "setup_sighandler signum flags act =
     Sigaction signum flags (case act of Some h \<Rightarrow> h | None \<Rightarrow> SIG_DFL)"

text \<open>The redraw of lines 63 to 66.\<close>

definition redraw :: "env \<Rightarrow> event" where
  "redraw e =
     (if line_by_line e \<noteq> 0 then StdoutUpdate (line_by_line e) 1 else CursesUpdate)"

text \<open>
  \<^verbatim>\<open>update_display\<close>, run from entry to return with \<open>current_time\<close> the value
  \<^verbatim>\<open>time(NULL)\<close> returns: the new \<^verbatim>\<open>gl_env\<close> and the calls made.
\<close>

definition update_display :: "env \<Rightarrow> int \<Rightarrow> env \<times> event list" where
  "update_display e current_time =
     (if quiet e then (e, [])
      else if current_time < last_update_time e + interval e then (e, [])
      else (e\<lparr>last_update_time := current_time\<rparr>, [redraw e, Alarm 1]))"

text \<open>The four statements of \<^verbatim>\<open>at_exit\<close>, named by their lines.\<close>

datatype at_exit_pc = AE178 | AE180 | AE184 | AE185

fun at_exit_stmt :: "env \<Rightarrow> at_exit_pc \<Rightarrow> event list" where
  "at_exit_stmt e AE178 = (if \<not> quiet e \<and> line_by_line e = 0 then [CursesRelease] else [])"
| "at_exit_stmt e AE180 =
     [if line_by_line e \<noteq> 0 then StdoutUpdate (line_by_line e) 1 else StdoutUpdate 10 0]"
| "at_exit_stmt e AE184 = [DeleteLogtop]"
| "at_exit_stmt e AE185 = [Fflush]"

definition at_exit :: "env \<Rightarrow> event list" where
  "at_exit e =
     at_exit_stmt e AE178 @ at_exit_stmt e AE180 @ at_exit_stmt e AE184 @ at_exit_stmt e AE185"

definition on_sigint :: "env \<Rightarrow> signum \<Rightarrow> event list" where
  "on_sigint e sig = [setup_sighandler SIGINT 0 None] @ at_exit e @ [Kill sig]"

subsection \<open>\<^verbatim>\<open>parse_args\<close>\<close>

text \<open>
  \<^verbatim>\<open>atoi\<close> of the C library, as glibc computes it, \<^verbatim>\<open>(int) strtol(s, NULL, 10)\<close>: leading white
  space, an optional sign, then decimal digits up to the first other character, 0 when
  there is no digit; \<^verbatim>\<open>strtol\<close> saturates at the bounds of a 64-bit \<^verbatim>\<open>long\<close>, and the
  conversion to the 32-bit \<^verbatim>\<open>int\<close> keeps the low 32 bits, read as a signed number.
\<close>

definition isspace :: "char \<Rightarrow> bool" where
  "isspace c = (c \<in> set [CHR '' '', CHR 0x09, CHR 0x0A, CHR 0x0B, CHR 0x0C, CHR 0x0D])"

definition isdigit :: "char \<Rightarrow> bool" where
  "isdigit c = (48 \<le> (of_char c :: nat) \<and> (of_char c :: nat) \<le> 57)"

fun atoi_digits :: "int \<Rightarrow> string \<Rightarrow> int" where
  "atoi_digits acc [] = acc"
| "atoi_digits acc (c # cs) =
     (if isdigit c then atoi_digits (10 * acc + (of_char c - 48)) cs else acc)"

definition LONG_MIN :: int where "LONG_MIN = - (2 ^ 63)"
definition LONG_MAX :: int where "LONG_MAX = 2 ^ 63 - 1"

definition strtol10 :: "string \<Rightarrow> int" where
  "strtol10 s =
     max LONG_MIN (min LONG_MAX
       (case dropWhile isspace s of
          [] \<Rightarrow> 0
        | c # cs \<Rightarrow>
            if c = CHR ''-'' then - atoi_digits 0 cs
            else if c = CHR ''+'' then atoi_digits 0 cs
            else atoi_digits 0 (c # cs)))"

definition long_to_int :: "int \<Rightarrow> int" where
  "long_to_int v = (v + 2 ^ 31) mod 2 ^ 32 - 2 ^ 31"

definition atoi :: "string \<Rightarrow> int" where
  "atoi s = long_to_int (strtol10 s)"

definition usage_and_exit :: "int \<Rightarrow> event list" where
  "usage_and_exit exit_code =
     [Usage (if exit_code = EXIT_SUCCESS then Stdout else Stderr), Exit exit_code]"

definition version_and_exit :: "event list" where
  "version_and_exit = [Version, Exit EXIT_SUCCESS]"

text \<open>
  The \<^verbatim>\<open>while (1)\<close> loop of \<^verbatim>\<open>parse_args\<close> over the results of the successive
  \<^verbatim>\<open>getopt_long\<close> calls: each is the returned character with \<^verbatim>\<open>optarg\<close>, and the end of the
  list is the return value \<open>-1\<close>. \<^verbatim>\<open>getopt_long\<close> returns \<^verbatim>\<open>'?'\<close> for an option it does not
  know and for a missing argument; that and any other character reach \<^verbatim>\<open>default\<close>.
  The result is \<open>Inl\<close> with the calls made when the process exits, \<open>Inr\<close> with \<^verbatim>\<open>gl_env\<close>
  otherwise.
\<close>

fun parse_loop :: "env \<Rightarrow> (char \<times> string) list \<Rightarrow> event list + env" where
  "parse_loop e [] = Inr e"
| "parse_loop e ((c, optarg) # rest) =
     (if c = CHR ''l'' then parse_loop (e\<lparr>line_by_line := atoi optarg\<rparr>) rest
      else if c = CHR ''q'' then parse_loop (e\<lparr>quiet := True\<rparr>) rest
      else if c = CHR ''s'' then parse_loop (e\<lparr>history_size := atoi optarg\<rparr>) rest
      else if c = CHR ''i'' then parse_loop (e\<lparr>interval := atoi optarg\<rparr>) rest
      else if c = CHR ''v'' then Inl version_and_exit
      else if c = CHR ''h'' then Inl (usage_and_exit EXIT_SUCCESS)
      else Inl (usage_and_exit EXIT_FAILURE))"

text \<open>\<open>DEFAULT_HISTORY_SIZE\<close> is a macro of \<^verbatim>\<open>main.h\<close> and is taken as a parameter;
  \<open>stdin_isatty\<close> is the result of \<^verbatim>\<open>isatty(fileno(stdin))\<close>.\<close>

definition parse_args :: "int \<Rightarrow> (char \<times> string) list \<Rightarrow> bool \<Rightarrow> event list + env" where
  "parse_args DEFAULT_HISTORY_SIZE opts stdin_isatty =
     (case parse_loop \<lparr>history_size = 0, quiet = False, last_update_time = 0,
                        line_by_line = 0, interval = 1\<rparr> opts of
        Inl evs \<Rightarrow> Inl evs
      | Inr e \<Rightarrow>
          if stdin_isatty then Inl (usage_and_exit EXIT_FAILURE)
          else Inr (if history_size e = 0 then e\<lparr>history_size := DEFAULT_HISTORY_SIZE\<rparr>
                    else e))"

subsection \<open>\<^verbatim>\<open>main\<close>, when no signal arrives\<close>

text \<open>The calls of lines 198 to 204, in order.\<close>

definition startup :: "env \<Rightarrow> event list" where
  "startup e =
     [setup_sighandler SIGINT 0 (Some on_sigint_h),
      setup_sighandler SIGALRM SA_RESTART (Some update_display_h),
      Alarm 1,
      NewLogtop (history_size e)]
     @ (if \<not> quiet e \<and> line_by_line e = 0 then [CursesSetup] else [])"

text \<open>
  The calls of a whole run of \<^verbatim>\<open>main\<close> during which no signal is delivered: \<open>now\<close> is the
  clock at line 201, in seconds since the Epoch, and \<open>bs\<close> the bytes of standard input.
\<close>

definition main :: "int \<Rightarrow> (char \<times> string) list \<Rightarrow> bool \<Rightarrow> nat \<Rightarrow> string \<Rightarrow> event list" where
  "main DEFAULT_HISTORY_SIZE opts stdin_isatty now bs =
     (case parse_args DEFAULT_HISTORY_SIZE opts stdin_isatty of
        Inl evs \<Rightarrow> evs
      | Inr e \<Rightarrow>
          startup e @ run bs @ at_exit (e\<lparr>last_update_time := int now\<rparr>)
          @ [Exit EXIT_SUCCESS])"

subsection \<open>The process with its signals\<close>

text \<open>
  The process has one thread of control. A signal is delivered between two statements: if
  its disposition is a handler, the handler runs until it returns and the interrupted code
  only continues then; while a handler runs, the signal that invoked it is blocked
  (\<^verbatim>\<open>setup_sighandler\<close> never sets \<^verbatim>\<open>SA_NODEFER\<close>, and \<^verbatim>\<open>sa_mask\<close> is empty, so the other
  signal is not blocked), and a blocked signal stays pending until the handler returns.
  The default disposition of both signals ends the process.

  A statement of the source is one step, except line 201, whose call and store are two
  steps, and a call into the engine, a renderer or the C library is one event within its
  step. The program counters are named by source lines.
  Either signal may be generated at any moment, by the timer, the terminal or another
  process. The clock is what \<^verbatim>\<open>time(NULL)\<close> returns, the number of seconds since the Epoch, a
  natural number; each step that reads it is given the reading.
\<close>

text \<open>Line 201 is two steps: at \<open>M201\<close> the call \<^verbatim>\<open>time(NULL)\<close>, and at \<open>M201_store v\<close> the
  store of its result \<open>v\<close> into \<^verbatim>\<open>gl_env.last_update_time\<close>; a signal can be handled in
  between.\<close>

datatype main_pc =
  M198 | M199 | M200 | M201 | M201_store int | M202 | M203 | M205 | M206 at_exit_pc | M207

datatype on_sigint_pc = I190 | I191 at_exit_pc | I192 | I193

datatype update_display_pc = U57 | U59 | U60 | U62 | U63 | U67 | U68

text \<open>A running handler: where it is, and for \<^verbatim>\<open>update_display\<close> its local
  \<^verbatim>\<open>current_time\<close>, which is not read before line 59 has assigned it. No other code reads or
  writes this variable, so the call and the assignment of line 59 are one step.\<close>

datatype activation = OnSigint on_sigint_pc | UpdateDisplay update_display_pc int

datatype status = Running | Exited int | Killed signum

record proc =
  gl_env :: env
  unread :: string                          \<comment> \<open>the bytes of standard input not yet read\<close>
  disp :: "signum \<Rightarrow> handler"              \<comment> \<open>the signal dispositions\<close>
  pc :: main_pc                             \<comment> \<open>where \<^verbatim>\<open>main\<close> is\<close>
  handlers :: "(signum \<times> activation) list"  \<comment> \<open>running handlers, innermost first, each with
                                               the signal it handles\<close>
  pending :: "signum set"
  trace :: "event list"                     \<comment> \<open>the calls made so far\<close>
  status :: status

definition emit :: "event list \<Rightarrow> proc \<Rightarrow> proc" where
  "emit evs s = s\<lparr>trace := trace s @ evs\<rparr>"

text \<open>\<^verbatim>\<open>setup_sighandler\<close> as a step: the call, and the disposition it installs.\<close>

definition do_setup_sighandler :: "signum \<Rightarrow> int \<Rightarrow> handler option \<Rightarrow> proc \<Rightarrow> proc" where
  "do_setup_sighandler signum flags act s =
     (emit [setup_sighandler signum flags act] s)
       \<lparr>disp := (disp s)(signum := (case act of Some h \<Rightarrow> h | None \<Rightarrow> SIG_DFL))\<rparr>"

text \<open>A signal generated for the process, by the timer, the terminal, another process or
  \<^verbatim>\<open>kill(getpid(), sig)\<close>.\<close>

definition deliver :: "signum \<Rightarrow> proc \<Rightarrow> proc" where
  "deliver sig s =
     (if sig \<in> set (map fst (handlers s)) then s\<lparr>pending := insert sig (pending s)\<rparr>
      else (case disp s sig of
              SIG_DFL \<Rightarrow> s\<lparr>status := Killed sig\<rparr>
            | on_sigint_h \<Rightarrow> s\<lparr>handlers := (sig, OnSigint I190) # handlers s\<rparr>
            | update_display_h \<Rightarrow> s\<lparr>handlers := (sig, UpdateDisplay U57 0) # handlers s\<rparr>))"

text \<open>The innermost handler returns: its signal is unblocked, and delivered if pending.\<close>

definition handler_return :: "proc \<Rightarrow> proc" where
  "handler_return s =
     (case handlers s of
        [] \<Rightarrow> s
      | (sig, a) # rest \<Rightarrow>
          if sig \<in> pending s
          then deliver sig (s\<lparr>handlers := rest, pending := pending s - {sig}\<rparr>)
          else s\<lparr>handlers := rest\<rparr>)"

definition goto :: "activation \<Rightarrow> proc \<Rightarrow> proc" where
  "goto a s =
     (case handlers s of [] \<Rightarrow> s | (sig, b) # rest \<Rightarrow> s\<lparr>handlers := (sig, a) # rest\<rparr>)"

fun after_at_exit :: "at_exit_pc \<Rightarrow> at_exit_pc option" where
  "after_at_exit AE178 = Some AE180"
| "after_at_exit AE180 = Some AE184"
| "after_at_exit AE184 = Some AE185"
| "after_at_exit AE185 = None"

text \<open>One statement of \<^verbatim>\<open>main\<close> after \<^verbatim>\<open>parse_args\<close>; \<open>t\<close> is the clock when it runs.
  At line 205 a step is one turn of the loop of \<^verbatim>\<open>run\<close>, or its exit at end of input.\<close>

fun main_step :: "nat \<Rightarrow> main_pc \<Rightarrow> proc \<Rightarrow> proc" where
  "main_step t M198 s = (do_setup_sighandler SIGINT 0 (Some on_sigint_h) s)\<lparr>pc := M199\<rparr>"
| "main_step t M199 s =
     (do_setup_sighandler SIGALRM SA_RESTART (Some update_display_h) s)\<lparr>pc := M200\<rparr>"
| "main_step t M200 s = (emit [Alarm 1] s)\<lparr>pc := M201\<rparr>"
| "main_step t M201 s = s\<lparr>pc := M201_store (int t)\<rparr>"
| "main_step t (M201_store v) s = s\<lparr>gl_env := (gl_env s)\<lparr>last_update_time := v\<rparr>, pc := M202\<rparr>"
| "main_step t M202 s = (emit [NewLogtop (history_size (gl_env s))] s)\<lparr>pc := M203\<rparr>"
| "main_step t M203 s =
     (emit (if \<not> quiet (gl_env s) \<and> line_by_line (gl_env s) = 0 then [CursesSetup] else []) s)
       \<lparr>pc := M205\<rparr>"
| "main_step t M205 s =
     (case run_iter (unread s) of
        None \<Rightarrow> s\<lparr>pc := M206 AE178\<rparr>
      | Some (e, rest) \<Rightarrow> (emit [e] s)\<lparr>unread := rest\<rparr>)"
| "main_step t (M206 a) s =
     (emit (at_exit_stmt (gl_env s) a) s)
       \<lparr>pc := (case after_at_exit a of Some a' \<Rightarrow> M206 a' | None \<Rightarrow> M207)\<rparr>"
| "main_step t M207 s = (emit [Exit EXIT_SUCCESS] s)\<lparr>status := Exited EXIT_SUCCESS\<rparr>"

text \<open>One statement of \<^verbatim>\<open>on_sigint(sig)\<close>; line 193 is its return.\<close>

fun on_sigint_step :: "signum \<Rightarrow> on_sigint_pc \<Rightarrow> proc \<Rightarrow> proc" where
  "on_sigint_step sig I190 s = goto (OnSigint (I191 AE178)) (do_setup_sighandler SIGINT 0 None s)"
| "on_sigint_step sig (I191 a) s =
     goto (OnSigint (case after_at_exit a of Some a' \<Rightarrow> I191 a' | None \<Rightarrow> I192))
          (emit (at_exit_stmt (gl_env s) a) s)"
| "on_sigint_step sig I192 s = deliver sig (goto (OnSigint I193) (emit [Kill sig] s))"
| "on_sigint_step sig I193 s = handler_return s"

text \<open>One statement of \<^verbatim>\<open>update_display\<close>; line 68 is its return, also reached by the two
  \<^verbatim>\<open>return\<close> statements.\<close>

fun update_display_step :: "nat \<Rightarrow> update_display_pc \<Rightarrow> int \<Rightarrow> proc \<Rightarrow> proc" where
  "update_display_step t U57 current_time s =
     goto (UpdateDisplay (if quiet (gl_env s) then U68 else U59) current_time) s"
| "update_display_step t U59 current_time s = goto (UpdateDisplay U60 (int t)) s"
| "update_display_step t U60 current_time s =
     goto (UpdateDisplay
             (if current_time < last_update_time (gl_env s) + interval (gl_env s) then U68
              else U62) current_time) s"
| "update_display_step t U62 current_time s =
     goto (UpdateDisplay U63 current_time)
          (s\<lparr>gl_env := (gl_env s)\<lparr>last_update_time := current_time\<rparr>\<rparr>)"
| "update_display_step t U63 current_time s =
     goto (UpdateDisplay U67 current_time) (emit [redraw (gl_env s)] s)"
| "update_display_step t U67 current_time s =
     goto (UpdateDisplay U68 current_time) (emit [Alarm 1] s)"
| "update_display_step t U68 current_time s = handler_return s"

text \<open>What happens next is chosen from outside: the code in control runs its next
  statement, at clock \<open>t\<close> in seconds since the Epoch, or a signal is generated.\<close>

datatype sched = Step nat | Deliver signum

definition step :: "sched \<Rightarrow> proc \<Rightarrow> proc" where
  "step x s =
     (if status s \<noteq> Running then s
      else (case x of
              Deliver sig \<Rightarrow> deliver sig s
            | Step t \<Rightarrow>
                (case handlers s of
                   [] \<Rightarrow> main_step t (pc s) s
                 | (sig, OnSigint p) # rest \<Rightarrow> on_sigint_step sig p s
                 | (sig, UpdateDisplay p current_time) # rest \<Rightarrow>
                     update_display_step t p current_time s)))"

fun exec :: "sched list \<Rightarrow> proc \<Rightarrow> proc" where
  "exec [] s = s"
| "exec (x # xs) s = exec xs (step x s)"

text \<open>The process when \<^verbatim>\<open>parse_args\<close> has returned, with \<^verbatim>\<open>gl_env = e\<close> and standard input
  \<open>bs\<close>.\<close>

definition init :: "env \<Rightarrow> string \<Rightarrow> proc" where
  "init e bs =
     \<lparr>gl_env = e, unread = bs, disp = (\<lambda>sig. SIG_DFL), pc = M198, handlers = [],
      pending = {}, trace = [], status = Running\<rparr>"




subsection \<open>Observing the redraws of successive timer ticks\<close>



text \<open>The options of \<^verbatim>\<open>parse_args\<close> that only store a value or set a flag.\<close>

fun storing :: "char \<times> string \<Rightarrow> bool" where
  "storing (c, optarg) = (c \<in> set ''lqsi'')"

subsection \<open>Concrete configurations\<close>

text \<open>\<^verbatim>\<open>gl_env\<close> one hundred seconds after the Epoch with a refresh interval of two seconds:
  in interactive mode, in line-by-line mode with two entries per line, and in quiet mode.\<close>

definition env_interactive :: env where
  "env_interactive =
     \<lparr>history_size = 10000, quiet = False, last_update_time = 100, line_by_line = 0,
      interval = 2\<rparr>"

definition env_line2 :: env where
  "env_line2 =
     \<lparr>history_size = 10000, quiet = False, last_update_time = 100, line_by_line = 2,
      interval = 2\<rparr>"

definition env_quiet :: env where
  "env_quiet =
     \<lparr>history_size = 10000, quiet = True, last_update_time = 100, line_by_line = 0,
      interval = 2\<rparr>"

text \<open>\<^verbatim>\<open>gl_env\<close> as \<^verbatim>\<open>parse_args\<close> leaves it when no option is given.\<close>

definition env_default :: env where
  "env_default =
     \<lparr>history_size = 10000, quiet = False, last_update_time = 0, line_by_line = 0,
      interval = 1\<rparr>"

subsection \<open>What every reachable state of the process satisfies\<close>




subsection \<open>The store of line 201 along an execution\<close>







text \<open>The number of steps \<^verbatim>\<open>update_display\<close> takes from its entry to its return: two in
  quiet mode, four when it returns at line 61, seven otherwise.\<close>

definition update_display_steps :: "env \<Rightarrow> int \<Rightarrow> nat" where
  "update_display_steps e current_time =
     (if quiet e then 2 else if current_time < last_update_time e + interval e then 4 else 7)"


section \<open>The ingestion loop\<close>

lemma strip_loop_pad:
  "strip_loop (xs @ replicate (Suc k) NUL) (length xs) =
     (strip_eol xs @ replicate (Suc k + length (takeWhile is_eol (rev xs))) NUL,
      length (strip_eol xs))"
proof (induction xs arbitrary: k rule: rev_induct)
  case Nil
  then show ?case by (simp add: strip_eol_def)
next
  case (snoc x xs)
  have upd: "((xs @ [x]) @ replicate (Suc k) NUL)[length xs := NUL]
               = xs @ replicate (Suc (Suc k)) NUL"
    by (simp add: list_update_append)
  have nth: "((xs @ [x]) @ replicate (Suc k) NUL) ! length xs = x"
    by (simp add: nth_append)
  show ?case
  proof (cases "is_eol x")
    case True
    then have "strip_loop ((xs @ [x]) @ replicate (Suc k) NUL) (Suc (length xs))
                 = strip_loop (xs @ replicate (Suc (Suc k)) NUL) (length xs)"
      using nth upd by (simp add: is_eol_def del: replicate_Suc append_assoc)
    with True snoc.IH [of "Suc k"] show ?thesis
      by (simp add: strip_eol_def del: replicate_Suc)
  next
    case False
    then show ?thesis
      using nth by (simp add: is_eol_def strip_eol_def del: replicate_Suc append_assoc)
  qed
qed

lemma c_string_pad: "c_string (xs @ replicate (Suc k) NUL) = c_string xs"
  by (induction xs) (simp_all add: c_string_def)

lemma fed_eq: "fed raw = c_string (strip_eol raw)"
proof -
  have "strip_loop (raw @ [NUL]) (length raw)
          = (strip_eol raw @ replicate (Suc 0 + length (takeWhile is_eol (rev raw))) NUL,
             length (strip_eol raw))"
    using strip_loop_pad [of raw 0] by simp
  then show ?thesis
    unfolding fed_def using c_string_pad by simp
qed

lemma getline_shape:
  "getline bs = Some (buf, n, rest) \<Longrightarrow>
     \<exists>raw. buf = raw @ [NUL] \<and> n = length raw \<and> raw \<noteq> [] \<and> bs = raw @ rest"
proof -
  assume g: "getline bs = Some (buf, n, rest)"
  then have ne: "bs \<noteq> []" by (auto simp: getline_def)
  show ?thesis
  proof (cases "dropWhile (\<lambda>c. c \<noteq> LF) bs")
    case Nil
    have "getline bs = Some (bs @ [NUL], length bs, [])"
      unfolding getline_def Nil using ne by simp
    with g ne show ?thesis by simp
  next
    case (Cons x xs)
    have "x = hd (dropWhile (\<lambda>c. c \<noteq> LF) bs)" using Cons by simp
    then have x: "x = LF" using hd_dropWhile [of "\<lambda>c. c \<noteq> LF" bs] Cons by simp
    have "takeWhile (\<lambda>c. c \<noteq> LF) bs @ dropWhile (\<lambda>c. c \<noteq> LF) bs = bs"
      by (rule takeWhile_dropWhile_id)
    then have bs: "bs = (takeWhile (\<lambda>c. c \<noteq> LF) bs @ [LF]) @ xs"
      unfolding Cons x by simp
    have "getline bs = Some (takeWhile (\<lambda>c. c \<noteq> LF) bs @ [LF, NUL],
                      Suc (length (takeWhile (\<lambda>c. c \<noteq> LF) bs)), xs)"
      unfolding getline_def Cons using ne by simp
    with g have "buf = (takeWhile (\<lambda>c. c \<noteq> LF) bs @ [LF]) @ [NUL]"
      and "n = length (takeWhile (\<lambda>c. c \<noteq> LF) bs @ [LF])" and "rest = xs"
      by simp_all
    with bs show ?thesis by blast
  qed
qed

lemma run_iter_fed:
  "getline bs = Some (buf, n, rest) \<Longrightarrow>
     run_iter bs = Some (LogtopFeed (fed (take n buf)), rest)"
  by (auto simp: run_iter_def fed_def dest!: getline_shape)

lemma getline_None: "getline bs = None \<Longrightarrow> bs = []"
  by (simp add: getline_def split: if_splits list.splits)

lemma concat_raw_lines: "concat (raw_lines bs) = bs"
proof (induction bs rule: raw_lines.induct)
  case (1 bs)
  show ?case
  proof (cases "getline bs")
    case None
    then have "raw_lines bs = []"
      by (simp add: raw_lines.simps [of bs])
    with getline_None [OF None] show ?thesis by simp
  next
    case (Some r)
    obtain buf n rest where r: "r = (buf, n, rest)" by (cases r)
    with Some have g: "getline bs = Some (buf, n, rest)" by simp
    from getline_shape [OF g] obtain raw where
      raw: "buf = raw @ [NUL]" "n = length raw" "bs = raw @ rest" by blast
    have "raw_lines bs = raw # raw_lines rest"
      using g raw(1,2) by (simp add: raw_lines.simps [of bs])
    with "1.IH" [OF g refl refl] raw(3) show ?thesis
      by simp
  qed
qed
lemma run_map_fed: "run bs = map (\<lambda>raw. LogtopFeed (fed raw)) (raw_lines bs)"
proof (induction bs rule: raw_lines.induct)
  case (1 bs)
  show ?case
  proof (cases "getline bs")
    case None
    then show ?thesis
      by (simp add: run.simps [of bs] raw_lines.simps [of bs] run_iter_def)
  next
    case (Some r)
    obtain buf n rest where r: "r = (buf, n, rest)" by (cases r)
    with Some have g: "getline bs = Some (buf, n, rest)" by simp
    from "1.IH" [OF g refl refl] run_iter_fed [OF g] g show ?thesis
      by (simp add: run.simps [of bs] raw_lines.simps [of bs])
  qed
qed

lemma strip_eol_split: "raw = strip_eol raw @ rev (takeWhile is_eol (rev raw))"
proof -
  have "raw = rev (takeWhile is_eol (rev raw) @ dropWhile is_eol (rev raw))" by simp
  also have "\<dots> = rev (dropWhile is_eol (rev raw)) @ rev (takeWhile is_eol (rev raw))"
    by (rule rev_append)
  finally show ?thesis by (simp only: strip_eol_def)
qed

lemma strip_eol_last: "strip_eol raw \<noteq> [] \<Longrightarrow> \<not> is_eol (last (strip_eol raw))"
  using hd_dropWhile [of is_eol "rev raw"] by (simp add: strip_eol_def last_rev)

lemma c_string_no_NUL: "NUL \<notin> set xs \<Longrightarrow> c_string xs = xs"
  by (induction xs) (auto simp: c_string_def)

lemma strip_eol_subset: "set (strip_eol raw) \<subseteq> set raw"
  using set_dropWhileD [of _ is_eol "rev raw"] by (auto simp: strip_eol_def)

lemma fed_only_eol:
  assumes "\<forall>c \<in> set raw. c = CR \<or> c = LF"
  shows "fed raw = []"
proof -
  from assms have "\<forall>c \<in> set (rev raw). is_eol c" by (auto simp: is_eol_def)
  then have "dropWhile is_eol (rev raw) = []" by (simp only: dropWhile_eq_Nil_conv)
  then show ?thesis
    by (simp only: fed_eq strip_eol_def c_string_def rev.simps takeWhile.simps)
qed

lemmas run_eval = run.simps run_iter_def getline_def c_string_def NUL_def LF_def CR_def

text \<open>
  C6. Every line \<^verbatim>\<open>run\<close> reads is handed to \<^verbatim>\<open>logtop_feed\<close> without its trailing carriage
  returns and line feeds, however many and in whatever order: the buffer passed is the raw
  line cut before its trailing run of such characters (\<open>strip_eol\<close>), what is cut consists
  of these characters only, and what remains does not end in one. The callee reads the
  buffer as a C string, which is the whole stripped line when the line holds no
  \<^verbatim>\<open>NUL\<close> byte. The raw lines \<^verbatim>\<open>"abc\r\n"\<close>, \<^verbatim>\<open>"abc\n"\<close> and \<^verbatim>\<open>"abc\r"\<close> are each fed as
  \<^verbatim>\<open>"abc"\<close>.
\<close>

theorem run_strips_trailing_eol:
  "run bs = map (\<lambda>raw. LogtopFeed (c_string (strip_eol raw))) (raw_lines bs)
   \<and> (\<exists>eols. raw = strip_eol raw @ eols \<and> (\<forall>c \<in> set eols. c = CR \<or> c = LF))
   \<and> (strip_eol raw \<noteq> [] \<longrightarrow> last (strip_eol raw) \<noteq> CR \<and> last (strip_eol raw) \<noteq> LF)
   \<and> (NUL \<notin> set raw \<longrightarrow> fed raw = strip_eol raw)
   \<and> run (''abc'' @ [CR, LF]) = [LogtopFeed ''abc'']
   \<and> run (''abc'' @ [LF]) = [LogtopFeed ''abc'']
   \<and> run (''abc'' @ [CR]) = [LogtopFeed ''abc'']"
proof -
  have a: "run bs = map (\<lambda>raw. LogtopFeed (c_string (strip_eol raw))) (raw_lines bs)"
    by (simp add: run_map_fed fed_eq)
  have "\<forall>c \<in> set (rev (takeWhile is_eol (rev raw))). c = CR \<or> c = LF"
    using set_takeWhileD [of _ is_eol "rev raw"] by (auto simp: is_eol_def)
  with strip_eol_split [of raw]
  have b: "\<exists>eols. raw = strip_eol raw @ eols \<and> (\<forall>c \<in> set eols. c = CR \<or> c = LF)"
    by blast
  have c: "strip_eol raw \<noteq> [] \<longrightarrow> last (strip_eol raw) \<noteq> CR \<and> last (strip_eol raw) \<noteq> LF"
    using strip_eol_last [of raw] by (auto simp: is_eol_def)
  have d: "NUL \<notin> set raw \<longrightarrow> fed raw = strip_eol raw"
    using strip_eol_subset [of raw] by (auto simp: fed_eq intro: c_string_no_NUL)
  have e1: "run (''abc'' @ [CR, LF]) = [LogtopFeed ''abc'']" by (simp add: run_eval)
  have e2: "run (''abc'' @ [LF]) = [LogtopFeed ''abc'']" by (simp add: run_eval)
  have e3: "run (''abc'' @ [CR]) = [LogtopFeed ''abc'']" by (simp add: run_eval)
  from a b c d e1 e2 e3 show ?thesis by (intro conjI)
qed

text \<open>The same at an input of two lines, the first ending in two carriage returns and a
  line feed, the second unterminated.\<close>

theorem run_strips_trailing_eol_witness:
  "run [CHR ''a'', CHR ''b'', CR, CR, LF, CHR ''c''] = [LogtopFeed ''ab'', LogtopFeed ''c'']
   \<and> strip_eol [CHR ''a'', CHR ''b'', CR, CR, LF] = ''ab''
   \<and> NUL \<notin> set [CHR ''a'', CHR ''b'', CR, CR, LF]
   \<and> fed [CHR ''a'', CHR ''b'', CR, CR, LF] = ''ab''"
proof -
  have s: "strip_eol [CHR ''a'', CHR ''b'', CR, CR, LF] = ''ab''"
    by (simp add: strip_eol_def is_eol_def LF_def CR_def)
  have n: "NUL \<notin> set [CHR ''a'', CHR ''b'', CR, CR, LF]"
    by (simp add: NUL_def LF_def CR_def)
  have r: "raw_lines [CHR ''a'', CHR ''b'', CR, CR, LF, CHR ''c'']
             = [CHR ''a'', CHR ''b'', CR, CR, LF] # [''c'']"
    by (simp add: raw_lines.simps getline_def LF_def CR_def)
  have s': "c_string (strip_eol ''c'') = ''c''"
    by (simp add: strip_eol_def is_eol_def c_string_def NUL_def LF_def CR_def)
  have s'': "c_string ''ab'' = ''ab''"
    by (simp add: c_string_def NUL_def)
  from run_strips_trailing_eol
         [of "[CHR ''a'', CHR ''b'', CR, CR, LF, CHR ''c'']" "[CHR ''a'', CHR ''b'', CR, CR, LF]"]
  have "run [CHR ''a'', CHR ''b'', CR, CR, LF, CHR ''c'']
          = map (\<lambda>raw. LogtopFeed (c_string (strip_eol raw)))
              (raw_lines [CHR ''a'', CHR ''b'', CR, CR, LF, CHR ''c''])"
    and "NUL \<notin> set [CHR ''a'', CHR ''b'', CR, CR, LF]
           \<longrightarrow> fed [CHR ''a'', CHR ''b'', CR, CR, LF]
                = strip_eol [CHR ''a'', CHR ''b'', CR, CR, LF]"
    by blast+
  with n show ?thesis
    by (simp only: r s s' s'' list.map simp_thms)
qed

text \<open>
  C9. \<^verbatim>\<open>run\<close> calls \<^verbatim>\<open>logtop_feed\<close> exactly once for each line \<^verbatim>\<open>getline\<close> returns, in
  order, and the lines returned make up the whole input; a line that consists of carriage
  returns and line feeds only is fed as the empty string, not skipped.
\<close>

theorem run_feeds_each_line_once:
  "run bs = map (\<lambda>raw. LogtopFeed (fed raw)) (raw_lines bs)
   \<and> length (run bs) = length (raw_lines bs)
   \<and> concat (raw_lines bs) = bs
   \<and> ((\<forall>c \<in> set raw. c = CR \<or> c = LF) \<longrightarrow> fed raw = [])"
  using fed_only_eol [of raw] by (simp add: run_map_fed concat_raw_lines)


theorem run_feeds_each_line_once_witness:
  "run [CR, LF, CHR ''a'', LF, LF] = [LogtopFeed [], LogtopFeed ''a'', LogtopFeed []]
   \<and> set [CR, LF] \<subseteq> {CR, LF}
   \<and> fed [CR, LF] = []"
proof -
  have r: "raw_lines [CR, LF, CHR ''a'', LF, LF] = [CR, LF] # [CHR ''a'', LF] # [LF] # []"
    by (simp add: raw_lines.simps getline_def LF_def CR_def)
  have f: "fed [CHR ''a'', LF] = ''a''" "fed [LF] = []"
    by (simp_all add: fed_def c_string_def NUL_def LF_def CR_def)
  have h: "\<forall>c \<in> set [CR, LF]. c = CR \<or> c = LF" by simp
  from run_feeds_each_line_once [of "[CR, LF, CHR ''a'', LF, LF]" "[CR, LF]"]
  have "run [CR, LF, CHR ''a'', LF, LF]
          = map (\<lambda>raw. LogtopFeed (fed raw)) (raw_lines [CR, LF, CHR ''a'', LF, LF])"
    and "(\<forall>c \<in> set [CR, LF]. c = CR \<or> c = LF) \<longrightarrow> fed [CR, LF] = []"
    by blast+
  with h have "run [CR, LF, CHR ''a'', LF, LF] = [LogtopFeed [], LogtopFeed ''a'', LogtopFeed []]"
    and "fed [CR, LF] = []"
    by (simp_all only: r f list.map simp_thms)
  then show ?thesis by simp
qed


section \<open>The update scheduler\<close>











text \<open>
  C2, as the code has it. In quiet mode a timer tick makes no call at all: \<^verbatim>\<open>update_display\<close>
  returns at its first statement, before the redraw and before \<^verbatim>\<open>alarm(1)\<close>, and leaves
  \<^verbatim>\<open>gl_env\<close> as it is. So it performs no redraw and does not re-arm the timer.
\<close>

theorem quiet_tick_makes_no_call:
  "quiet e \<Longrightarrow> update_display e current_time = (e, [])"
  by (simp add: update_display_def)

theorem quiet_tick_makes_no_call_witness:
  "quiet env_quiet \<and> update_display env_quiet 102 = (env_quiet, [])"
proof -
  have h: "quiet env_quiet" by (simp add: env_quiet_def)
  from quiet_tick_makes_no_call [OF h, of 102] h show ?thesis by simp
qed

text \<open>C2 as stated fails: in quiet mode, two seconds after the last timestamp, the tick
  makes no \<^verbatim>\<open>alarm\<close> call.\<close>

theorem quiet_tick_rearms_counterexample:
  "quiet env_quiet
   \<and> snd (update_display env_quiet 102) = []
   \<and> Alarm 1 \<notin> set (snd (update_display env_quiet 102))"
  by (simp add: update_display_def env_quiet_def)

text \<open>
  C5, as the code has it. When a periodic redraw fires in line-by-line mode, the call is
  \<^verbatim>\<open>stdout_update(gl_env.line_by_line, 1)\<close>: the width is the configured number of entries,
  and the second argument is 1, as in the last report \<^verbatim>\<open>at_exit\<close> prints in this mode, not 0.
\<close>

theorem periodic_line_redraw_call:
  "\<not> quiet e \<Longrightarrow> line_by_line e \<noteq> 0 \<Longrightarrow> last_update_time e + interval e \<le> current_time \<Longrightarrow>
     snd (update_display e current_time) = [StdoutUpdate (line_by_line e) 1, Alarm 1]
     \<and> at_exit_stmt e AE180 = [StdoutUpdate (line_by_line e) 1]"
  by (simp add: update_display_def redraw_def)

theorem periodic_line_redraw_call_witness:
  "\<not> quiet env_line2 \<and> line_by_line env_line2 \<noteq> 0
   \<and> last_update_time env_line2 + interval env_line2 \<le> 102
   \<and> snd (update_display env_line2 102) = [StdoutUpdate 2 1, Alarm 1]
   \<and> at_exit_stmt env_line2 AE180 = [StdoutUpdate 2 1]"
proof -
  have h: "\<not> quiet env_line2" "line_by_line env_line2 \<noteq> 0"
    "last_update_time env_line2 + interval env_line2 \<le> 102"
    by (simp_all add: env_line2_def)
  have l: "line_by_line env_line2 = 2" by (simp add: env_line2_def)
  from periodic_line_redraw_call [OF h] h show ?thesis
    unfolding l by simp
qed

text \<open>C5 as stated fails: with two entries per line, the periodic redraw passes 1 as the
  second argument, and no call with 0 is made.\<close>

theorem periodic_line_redraw_counterexample:
  "snd (update_display env_line2 102) = [StdoutUpdate 2 1, Alarm 1]
   \<and> StdoutUpdate 2 0 \<notin> set (snd (update_display env_line2 102))"
  by (simp add: update_display_def redraw_def env_line2_def)


section \<open>The functions and the steps agree\<close>

lemma exec_append: "exec (xs @ ys) s = exec ys (exec xs s)"
  by (induction xs arbitrary: s) simp_all

lemma run_iter_None: "run_iter bs = None \<Longrightarrow> run bs = [] \<and> bs = []"
proof -
  assume n: "run_iter bs = None"
  then have "getline bs = None" by (auto simp: run_iter_def split: option.splits)
  then have "bs = []" by (simp add: getline_def split: if_splits list.splits)
  moreover from n have "run bs = []" by (simp add: run.simps [of bs])
  ultimately show ?thesis by simp
qed

lemma run_iter_Some: "run_iter bs = Some (ev, rest) \<Longrightarrow> run bs = ev # run rest"
  by (simp add: run.simps [of bs])

text \<open>The loop of \<^verbatim>\<open>run\<close>, uninterrupted: one step for each line and one for the end of
  input.\<close>

lemma run_exec:
  "unread s = bs \<Longrightarrow> pc s = M205 \<Longrightarrow> handlers s = [] \<Longrightarrow> status s = Running \<Longrightarrow>
     exec (replicate (Suc (length (run bs))) (Step t)) s
       = s\<lparr>unread := [], pc := M206 AE178, trace := trace s @ run bs\<rparr>"
proof (induction bs arbitrary: s rule: run.induct)
  case (1 bs)
  show ?case
  proof (cases "run_iter bs")
    case None
    from run_iter_None [OF None] have r: "run bs = []" and b: "bs = []" by blast+
    have "s\<lparr>pc := M206 AE178\<rparr> = s\<lparr>unread := [], pc := M206 AE178, trace := trace s @ []\<rparr>"
      using "1.prems"(1) b by (cases s) simp
    with None "1.prems" show ?thesis
      unfolding r by (simp add: step_def)
  next
    case (Some r)
    obtain ev rest where r: "r = (ev, rest)" by (cases r)
    with Some have it: "run_iter bs = Some (ev, rest)" by simp
    let ?s' = "(emit [ev] s)\<lparr>unread := rest\<rparr>"
    have st: "step (Step t) s = ?s'"
      using "1.prems" it by (simp add: step_def)
    have "exec (replicate (Suc (length (run rest))) (Step t)) ?s'
            = ?s'\<lparr>unread := [], pc := M206 AE178, trace := trace ?s' @ run rest\<rparr>"
      using "1.prems" by (intro "1.IH" [OF it refl]) (simp_all add: emit_def)
    with st show ?thesis
      unfolding run_iter_Some [OF it] by (simp add: emit_def)
  qed
qed

lemmas step_defs =
  deliver_def handler_return_def goto_def emit_def do_setup_sighandler_def

lemma startup_exec:
  "exec (replicate 7 (Step now)) (init e bs)
     = (init e bs)\<lparr>gl_env := e\<lparr>last_update_time := int now\<rparr>,
                   disp := (\<lambda>sig. SIG_DFL)(SIGINT := on_sigint_h, SIGALRM := update_display_h),
                   pc := M205, trace := startup e\<rparr>"
  by (simp add: numeral_eq_Suc step_def step_defs init_def startup_def fun_upd_twist)

lemma at_exit_exec:
  "pc s = M206 AE178 \<Longrightarrow> handlers s = [] \<Longrightarrow> status s = Running \<Longrightarrow>
     exec (replicate 5 (Step now)) s
       = s\<lparr>pc := M207, trace := trace s @ at_exit (gl_env s) @ [Exit EXIT_SUCCESS],
            status := Exited EXIT_SUCCESS\<rparr>"
  by (simp add: numeral_eq_Suc step_def step_defs at_exit_def)

text \<open>A whole run without signals makes the calls of \<open>main\<close> and exits with status 0.\<close>

lemma main_exec:
  "trace (exec (replicate (length (run bs) + 13) (Step now)) (init e bs))
     = startup e @ run bs @ at_exit (e\<lparr>last_update_time := int now\<rparr>) @ [Exit EXIT_SUCCESS]"
  "status (exec (replicate (length (run bs) + 13) (Step now)) (init e bs)) = Exited EXIT_SUCCESS"
proof -
  have split: "replicate (length (run bs) + 13) (Step now)
        = replicate 7 (Step now) @ replicate (Suc (length (run bs))) (Step now)
          @ replicate 5 (Step now)"
    by (simp add: replicate_add [symmetric] del: replicate_Suc)
  let ?s1 = "exec (replicate 7 (Step now)) (init e bs)"
  have s1: "unread ?s1 = bs" "pc ?s1 = M205" "handlers ?s1 = []" "status ?s1 = Running"
    "trace ?s1 = startup e" "gl_env ?s1 = e\<lparr>last_update_time := int now\<rparr>"
    by (simp_all add: startup_exec) (simp_all add: init_def)
  let ?s2 = "exec (replicate (Suc (length (run bs))) (Step now)) ?s1"
  have s2: "?s2 = ?s1\<lparr>unread := [], pc := M206 AE178, trace := trace ?s1 @ run bs\<rparr>"
    by (rule run_exec [OF s1(1-4)])
  have s2': "pc ?s2 = M206 AE178" "handlers ?s2 = []" "status ?s2 = Running"
    "trace ?s2 = startup e @ run bs" "gl_env ?s2 = e\<lparr>last_update_time := int now\<rparr>"
    unfolding s2 using s1 by simp_all
  have s3: "exec (replicate 5 (Step now)) ?s2
       = ?s2\<lparr>pc := M207, trace := trace ?s2 @ at_exit (gl_env ?s2) @ [Exit EXIT_SUCCESS],
            status := Exited EXIT_SUCCESS\<rparr>"
    by (rule at_exit_exec [OF s2'(1-3)])
  have all: "exec (replicate (length (run bs) + 13) (Step now)) (init e bs)
               = exec (replicate 5 (Step now)) ?s2"
    unfolding split by (simp only: exec_append)
  show "trace (exec (replicate (length (run bs) + 13) (Step now)) (init e bs))
     = startup e @ run bs @ at_exit (e\<lparr>last_update_time := int now\<rparr>) @ [Exit EXIT_SUCCESS]"
    unfolding all s3 using s2' by simp
  show "status (exec (replicate (length (run bs) + 13) (Step now)) (init e bs)) = Exited EXIT_SUCCESS"
    unfolding all s3 by simp
qed

text \<open>\<^verbatim>\<open>SIGINT\<close> while its handler is installed and \<^verbatim>\<open>main\<close> is in control: the handler's
  seven steps make the calls of \<open>on_sigint\<close>, and the process is killed by the signal when
  the handler returns, not before.\<close>

lemma on_sigint_exec:
  assumes "status s = Running" and "handlers s = []" and "disp s SIGINT = on_sigint_h"
  shows "trace (exec (Deliver SIGINT # replicate 7 (Step now)) s)
           = trace s @ on_sigint (gl_env s) SIGINT"
    and "status (exec (Deliver SIGINT # replicate 7 (Step now)) s) = Killed SIGINT"
    and "status (exec (Deliver SIGINT # replicate 6 (Step now)) s) = Running"
  using assms
  by (simp_all add: numeral_eq_Suc step_def step_defs on_sigint_def at_exit_def)

text \<open>\<^verbatim>\<open>SIGALRM\<close> while its handler is installed and \<^verbatim>\<open>main\<close> is in control: the steps
  of the handler, uninterrupted and all at clock \<open>now\<close>, have the effect of
  \<open>update_display\<close>.\<close>


lemma redraw_last_update_time [simp]: "redraw (e\<lparr>last_update_time := t\<rparr>) = redraw e"
  by (simp add: redraw_def)

lemma handlers_Nil_update: "handlers s = [] \<Longrightarrow> s\<lparr>handlers := []\<rparr> = s"
  by (cases s) simp

lemma update_display_exec:
  assumes "status s = Running" and "handlers s = []" and "disp s SIGALRM = update_display_h"
    and "SIGALRM \<notin> pending s"
  shows "exec (Deliver SIGALRM # replicate (update_display_steps (gl_env s) (int now)) (Step now)) s
           = s\<lparr>gl_env := fst (update_display (gl_env s) (int now)),
                trace := trace s @ snd (update_display (gl_env s) (int now))\<rparr>"
proof -
  have "exec (Deliver SIGALRM # replicate (update_display_steps (gl_env s) (int now)) (Step now)) s
           = s\<lparr>gl_env := fst (update_display (gl_env s) (int now)),
                trace := trace s @ snd (update_display (gl_env s) (int now)),
                handlers := []\<rparr>"
    using assms
    by (simp add: update_display_steps_def numeral_eq_Suc step_def step_defs update_display_def)
  also have "\<dots> = (s\<lparr>handlers := []\<rparr>)\<lparr>gl_env := fst (update_display (gl_env s) (int now)),
                trace := trace s @ snd (update_display (gl_env s) (int now))\<rparr>"
    by simp
  finally show ?thesis
    by (simp only: handlers_Nil_update [OF assms(2)])
qed


section \<open>The timestamp along an execution\<close>






text \<open>Signals and handlers leave \<^verbatim>\<open>main\<close> where it is.\<close>

lemma pc_deliver [simp]: "pc (deliver sig s) = pc s"
  by (simp add: deliver_def split: handler.splits)

lemma pc_handler_return [simp]: "pc (handler_return s) = pc s"
  by (simp add: handler_return_def split: list.splits)

lemma pc_goto [simp]: "pc (goto a s) = pc s"
  by (simp add: goto_def split: list.splits)

lemma pc_on_sigint_step [simp]: "pc (on_sigint_step sig p s) = pc s"
  by (cases p) (simp_all add: emit_def do_setup_sighandler_def)

lemma pc_update_display_step [simp]: "pc (update_display_step t p ct s) = pc s"
  by (cases p) (simp_all add: emit_def)
























section \<open>Shutdown\<close>

lemma at_exit_last_update_time [simp]: "at_exit (e\<lparr>last_update_time := t\<rparr>) = at_exit e"
  by (simp add: at_exit_def)

lemma on_sigint_unfold:
  "on_sigint e sig
     = [Sigaction SIGINT 0 SIG_DFL]
       @ (if \<not> quiet e \<and> line_by_line e = 0 then [CursesRelease] else [])
       @ [if line_by_line e \<noteq> 0 then StdoutUpdate (line_by_line e) 1 else StdoutUpdate 10 0]
       @ [DeleteLogtop, Fflush]
       @ [Kill sig]"
  by (simp add: on_sigint_def at_exit_def setup_sighandler_def)

text \<open>
  C3. \<^verbatim>\<open>on_sigint\<close> makes its calls in this order: it restores the default disposition of
  \<^verbatim>\<open>SIGINT\<close>; releases the interactive renderer, when that is in use (neither quiet nor
  line-by-line mode); prints the last report, whose call does not depend on the timestamp;
  destroys the frequency engine; flushes the output; and only then raises the signal again.
  Run as a handler, these are the steps of the process, which is killed by the signal when the
  handler returns. A run that reaches the end of input without a signal ends with the calls
  of \<^verbatim>\<open>at_exit\<close> and exits with status 0.
\<close>

theorem interrupt_shutdown_order:
  "on_sigint e sig
     = [Sigaction SIGINT 0 SIG_DFL]
       @ (if \<not> quiet e \<and> line_by_line e = 0 then [CursesRelease] else [])
       @ [if line_by_line e \<noteq> 0 then StdoutUpdate (line_by_line e) 1 else StdoutUpdate 10 0]
       @ [DeleteLogtop, Fflush]
       @ [Kill sig]
   \<and> on_sigint (e\<lparr>last_update_time := t\<rparr>) sig = on_sigint e sig
   \<and> (status s = Running \<and> handlers s = [] \<and> disp s SIGINT = on_sigint_h \<longrightarrow>
        trace (exec (Deliver SIGINT # replicate 7 (Step now)) s)
          = trace s @ on_sigint (gl_env s) SIGINT
        \<and> status (exec (Deliver SIGINT # replicate 6 (Step now)) s) = Running
        \<and> status (exec (Deliver SIGINT # replicate 7 (Step now)) s) = Killed SIGINT)
   \<and> trace (exec (replicate (length (run bs) + 13) (Step now)) (init e bs))
       = startup e @ run bs @ at_exit e @ [Exit 0]
   \<and> status (exec (replicate (length (run bs) + 13) (Step now)) (init e bs)) = Exited 0"
proof -
  have a: "on_sigint (e\<lparr>last_update_time := t\<rparr>) sig = on_sigint e sig"
    by (simp add: on_sigint_def)
  have b: "status s = Running \<and> handlers s = [] \<and> disp s SIGINT = on_sigint_h \<longrightarrow>
        trace (exec (Deliver SIGINT # replicate 7 (Step now)) s)
          = trace s @ on_sigint (gl_env s) SIGINT
        \<and> status (exec (Deliver SIGINT # replicate 6 (Step now)) s) = Running
        \<and> status (exec (Deliver SIGINT # replicate 7 (Step now)) s) = Killed SIGINT"
    using on_sigint_exec [of s now] by blast
  have c: "trace (exec (replicate (length (run bs) + 13) (Step now)) (init e bs))
       = startup e @ run bs @ at_exit e @ [Exit 0]"
    and d: "status (exec (replicate (length (run bs) + 13) (Step now)) (init e bs)) = Exited 0"
    using main_exec [of bs now e] by (simp_all add: EXIT_SUCCESS_def)
  from on_sigint_unfold [of e sig] a b c d show ?thesis by (intro conjI)
qed

theorem interrupt_shutdown_order_witness:
  "on_sigint env_line2 SIGINT
     = [Sigaction SIGINT 0 SIG_DFL, StdoutUpdate 2 1, DeleteLogtop, Fflush, Kill SIGINT]
   \<and> status (exec (replicate 7 (Step 100)) (init env_default [])) = Running
   \<and> handlers (exec (replicate 7 (Step 100)) (init env_default [])) = []
   \<and> disp (exec (replicate 7 (Step 100)) (init env_default [])) SIGINT = on_sigint_h
   \<and> trace (exec (Deliver SIGINT # replicate 7 (Step 101))
               (exec (replicate 7 (Step 100)) (init env_default [])))
       = [Sigaction SIGINT 0 on_sigint_h, Sigaction SIGALRM SA_RESTART update_display_h,
          Alarm 1, NewLogtop 10000, CursesSetup,
          Sigaction SIGINT 0 SIG_DFL, CursesRelease, StdoutUpdate 10 0, DeleteLogtop, Fflush,
          Kill SIGINT]
   \<and> status (exec (Deliver SIGINT # replicate 7 (Step 101))
                (exec (replicate 7 (Step 100)) (init env_default []))) = Killed SIGINT"
proof -
  let ?s = "exec (replicate 7 (Step 100)) (init env_default [])"
  have s: "?s = (init env_default [])\<lparr>gl_env := env_default\<lparr>last_update_time := 100\<rparr>,
                   disp := (\<lambda>sig. SIG_DFL)(SIGINT := on_sigint_h, SIGALRM := update_display_h),
                   pc := M205, trace := startup env_default\<rparr>"
    using startup_exec [of 100 env_default "[]"] by simp
  have h: "status ?s = Running \<and> handlers ?s = [] \<and> disp ?s SIGINT = on_sigint_h"
    unfolding s by (simp add: init_def)
  have t: "trace ?s @ on_sigint (gl_env ?s) SIGINT
       = [Sigaction SIGINT 0 on_sigint_h, Sigaction SIGALRM SA_RESTART update_display_h,
          Alarm 1, NewLogtop 10000, CursesSetup,
          Sigaction SIGINT 0 SIG_DFL, CursesRelease, StdoutUpdate 10 0, DeleteLogtop, Fflush,
          Kill SIGINT]"
    unfolding s
    by (simp add: init_def startup_def on_sigint_def at_exit_def setup_sighandler_def
                  env_default_def)
  have l: "[Sigaction SIGINT 0 SIG_DFL]
       @ (if \<not> quiet env_line2 \<and> line_by_line env_line2 = 0 then [CursesRelease] else [])
       @ [if line_by_line env_line2 \<noteq> 0 then StdoutUpdate (line_by_line env_line2) 1
          else StdoutUpdate 10 0]
       @ [DeleteLogtop, Fflush]
       @ [Kill SIGINT]
     = [Sigaction SIGINT 0 SIG_DFL, StdoutUpdate 2 1, DeleteLogtop, Fflush, Kill SIGINT]"
    by (simp add: env_line2_def)
  from interrupt_shutdown_order [of env_line2 SIGINT 0 ?s 101 "[]"] h
  have "on_sigint env_line2 SIGINT
     = [Sigaction SIGINT 0 SIG_DFL]
       @ (if \<not> quiet env_line2 \<and> line_by_line env_line2 = 0 then [CursesRelease] else [])
       @ [if line_by_line env_line2 \<noteq> 0 then StdoutUpdate (line_by_line env_line2) 1
          else StdoutUpdate 10 0]
       @ [DeleteLogtop, Fflush]
       @ [Kill SIGINT]"
    and "trace (exec (Deliver SIGINT # replicate 7 (Step 101)) ?s)
          = trace ?s @ on_sigint (gl_env ?s) SIGINT"
    and "status (exec (Deliver SIGINT # replicate 7 (Step 101)) ?s) = Killed SIGINT"
    by blast+
  with h show ?thesis
    unfolding l t by (intro conjI) blast+
qed

text \<open>
  C1, at an execution that runs the shutdown work twice. Standard input is empty and no
  option is given. \<^verbatim>\<open>main\<close> runs its twelve steps up to and including the \<^verbatim>\<open>fflush\<close> of
  \<^verbatim>\<open>at_exit\<close>; the handler of \<^verbatim>\<open>SIGINT\<close> is still installed then, since only \<^verbatim>\<open>on_sigint\<close>
  resets it. \<^verbatim>\<open>SIGINT\<close> arrives before \<^verbatim>\<open>main\<close> returns, and \<^verbatim>\<open>on_sigint\<close> runs \<^verbatim>\<open>at_exit\<close>
  again: the last report is printed twice, and the renderer and the frequency engine are
  released twice.
\<close>

theorem shutdown_twice_after_end_of_input:
  "parse_args 10000 [] False = Inr env_default
   \<and> disp (exec (replicate 12 (Step 100)) (init env_default [])) SIGINT = on_sigint_h
   \<and> trace (exec (replicate 12 (Step 100) @ Deliver SIGINT # replicate 7 (Step 100))
               (init env_default []))
       = [Sigaction SIGINT 0 on_sigint_h, Sigaction SIGALRM SA_RESTART update_display_h,
          Alarm 1, NewLogtop 10000, CursesSetup,
          CursesRelease, StdoutUpdate 10 0, DeleteLogtop, Fflush,
          Sigaction SIGINT 0 SIG_DFL,
          CursesRelease, StdoutUpdate 10 0, DeleteLogtop, Fflush,
          Kill SIGINT]
   \<and> status (exec (replicate 12 (Step 100) @ Deliver SIGINT # replicate 7 (Step 100))
                (init env_default [])) = Killed SIGINT"
  by (simp add: parse_args_def env_default_def numeral_eq_Suc step_def step_defs init_def
                setup_sighandler_def run_iter_def getline_def)

lemma at_exit_exec4:
  "pc s = M206 AE178 \<Longrightarrow> handlers s = [] \<Longrightarrow> status s = Running \<Longrightarrow>
     exec (replicate 4 (Step now)) s = s\<lparr>pc := M207, trace := trace s @ at_exit (gl_env s)\<rparr>"
  by (simp add: numeral_eq_Suc step_def step_defs at_exit_def)

text \<open>The same for every configuration and input: when \<^verbatim>\<open>SIGINT\<close> arrives between the end
  of \<^verbatim>\<open>at_exit\<close> and the return of \<^verbatim>\<open>main\<close>, the calls of \<^verbatim>\<open>at_exit\<close> are made twice.\<close>

lemma shutdown_twice_any_input:
  "trace (exec (replicate (length (run bs) + 12) (Step now) @ Deliver SIGINT
                 # replicate 7 (Step now)) (init e bs))
     = startup e @ run bs @ at_exit e @ [Sigaction SIGINT 0 SIG_DFL] @ at_exit e @ [Kill SIGINT]"
proof -
  have split: "replicate (length (run bs) + 12) (Step now)
        = replicate 7 (Step now) @ replicate (Suc (length (run bs))) (Step now)
          @ replicate 4 (Step now)"
    by (simp add: replicate_add [symmetric] del: replicate_Suc)
  let ?s1 = "exec (replicate 7 (Step now)) (init e bs)"
  have s1: "unread ?s1 = bs" "pc ?s1 = M205" "handlers ?s1 = []" "status ?s1 = Running"
    "trace ?s1 = startup e" "gl_env ?s1 = e\<lparr>last_update_time := int now\<rparr>"
    "disp ?s1 SIGINT = on_sigint_h"
    by (simp_all add: startup_exec) (simp_all add: init_def)
  let ?s2 = "exec (replicate (Suc (length (run bs))) (Step now)) ?s1"
  have s2: "?s2 = ?s1\<lparr>unread := [], pc := M206 AE178, trace := trace ?s1 @ run bs\<rparr>"
    by (rule run_exec [OF s1(1-4)])
  have s2': "pc ?s2 = M206 AE178" "handlers ?s2 = []" "status ?s2 = Running"
    "trace ?s2 = startup e @ run bs" "gl_env ?s2 = e\<lparr>last_update_time := int now\<rparr>"
    "disp ?s2 SIGINT = on_sigint_h"
    unfolding s2 using s1 by simp_all
  let ?s3 = "exec (replicate 4 (Step now)) ?s2"
  have s3: "?s3 = ?s2\<lparr>pc := M207, trace := trace ?s2 @ at_exit (gl_env ?s2)\<rparr>"
    by (rule at_exit_exec4 [OF s2'(1-3)])
  have s3': "status ?s3 = Running" "handlers ?s3 = []" "disp ?s3 SIGINT = on_sigint_h"
    "trace ?s3 = startup e @ run bs @ at_exit e" "gl_env ?s3 = e\<lparr>last_update_time := int now\<rparr>"
    unfolding s3 using s2' by simp_all
  have all: "exec (replicate (length (run bs) + 12) (Step now) @ Deliver SIGINT
                 # replicate 7 (Step now)) (init e bs)
               = exec (Deliver SIGINT # replicate 7 (Step now)) ?s3"
    unfolding split by (simp only: exec_append)
  show ?thesis
    unfolding all on_sigint_exec(1) [OF s3'(1-3)] s3'(4,5)
    by (simp add: on_sigint_def setup_sighandler_def)
qed

lemma run_only_feeds: "ev \<in> set (run bs) \<Longrightarrow> \<exists>l. ev = LogtopFeed l"
  by (auto simp: run_map_fed)

lemma count_run [simp]:
  "count_list (run bs) CursesSetup = 0" "count_list (run bs) CursesRelease = 0"
  using run_only_feeds [of _ bs] by (auto simp: count_list_0_iff)

lemma parse_loop_Inl:
  "parse_loop e opts = Inl evs \<Longrightarrow>
     evs = version_and_exit \<or> evs = usage_and_exit EXIT_SUCCESS \<or> evs = usage_and_exit EXIT_FAILURE"
  by (induction e opts rule: parse_loop.induct) (auto split: if_splits)

lemma parse_args_Inl:
  "parse_args D opts stdin_isatty = Inl evs \<Longrightarrow>
     evs = version_and_exit \<or> evs = usage_and_exit EXIT_SUCCESS \<or> evs = usage_and_exit EXIT_FAILURE"
  by (auto simp: parse_args_def split: sum.splits if_splits dest: parse_loop_Inl)

lemma count_startup:
  "count_list (startup e) CursesSetup = (if \<not> quiet e \<and> line_by_line e = 0 then 1 else 0)"
  "count_list (startup e) CursesRelease = 0"
  by (simp_all add: startup_def setup_sighandler_def)

lemma count_at_exit:
  "count_list (at_exit e) CursesRelease = (if \<not> quiet e \<and> line_by_line e = 0 then 1 else 0)"
  "count_list (at_exit e) CursesSetup = 0"
  by (simp_all add: at_exit_def)

text \<open>
  C10. The calls of lines 198 to 204 contain \<^verbatim>\<open>curses_setup\<close> exactly when quiet mode and
  line-by-line mode are both off, and the calls of \<^verbatim>\<open>at_exit\<close>, at end of input as from
  \<^verbatim>\<open>on_sigint\<close>, contain \<^verbatim>\<open>curses_release\<close> under the same condition. So in a run of \<^verbatim>\<open>main\<close>
  to its end, whatever the options, \<^verbatim>\<open>curses_release\<close> is called as many times as
  \<^verbatim>\<open>curses_setup\<close>: once each, or not at all.
\<close>

theorem curses_setup_release_same_condition:
  "(CursesSetup \<in> set (startup e) \<longleftrightarrow> \<not> quiet e \<and> line_by_line e = 0)
   \<and> (CursesRelease \<in> set (at_exit e) \<longleftrightarrow> \<not> quiet e \<and> line_by_line e = 0)
   \<and> (CursesRelease \<in> set (on_sigint e sig) \<longleftrightarrow> \<not> quiet e \<and> line_by_line e = 0)
   \<and> count_list (main D opts stdin_isatty now bs) CursesRelease
       = count_list (main D opts stdin_isatty now bs) CursesSetup
   \<and> count_list (main D opts stdin_isatty now bs) CursesSetup \<le> 1
   \<and> (CursesSetup \<in> set (main D opts stdin_isatty now bs)
        \<longleftrightarrow> CursesRelease \<in> set (main D opts stdin_isatty now bs))"
proof -
  have a: "CursesSetup \<in> set (startup e) \<longleftrightarrow> \<not> quiet e \<and> line_by_line e = 0"
    by (simp add: startup_def setup_sighandler_def)
  have b: "CursesRelease \<in> set (at_exit e) \<longleftrightarrow> \<not> quiet e \<and> line_by_line e = 0"
    by (simp add: at_exit_def)
  have c: "CursesRelease \<in> set (on_sigint e sig) \<longleftrightarrow> \<not> quiet e \<and> line_by_line e = 0"
    by (simp add: on_sigint_def at_exit_def setup_sighandler_def)
  have d: "count_list (main D opts stdin_isatty now bs) CursesRelease
       = count_list (main D opts stdin_isatty now bs) CursesSetup
     \<and> count_list (main D opts stdin_isatty now bs) CursesSetup \<le> 1"
  proof (cases "parse_args D opts stdin_isatty")
    case (Inl evs)
    with parse_args_Inl [OF Inl] show ?thesis
      by (auto simp: main_def version_and_exit_def usage_and_exit_def)
  next
    case (Inr e')
    then show ?thesis
      by (simp add: main_def count_startup count_at_exit)
  qed
  then have e: "CursesSetup \<in> set (main D opts stdin_isatty now bs)
        \<longleftrightarrow> CursesRelease \<in> set (main D opts stdin_isatty now bs)"
    using count_list_0_iff [of "main D opts stdin_isatty now bs" CursesSetup]
      count_list_0_iff [of "main D opts stdin_isatty now bs" CursesRelease]
    by auto
  from a b c d e show ?thesis by (intro conjI) blast+
qed

theorem curses_setup_release_same_condition_witness:
  "CursesSetup \<in> set (startup env_interactive)
   \<and> CursesRelease \<in> set (at_exit env_interactive)
   \<and> CursesRelease \<in> set (on_sigint env_interactive SIGINT)
   \<and> CursesSetup \<in> set (main 10000 [] False 100 [])
   \<and> CursesRelease \<in> set (main 10000 [] False 100 [])
   \<and> CursesSetup \<notin> set (main 10000 [(CHR ''q'', [])] False 100 [])
   \<and> CursesRelease \<notin> set (main 10000 [(CHR ''q'', [])] False 100 [])"
proof -
  have h: "\<not> quiet env_interactive \<and> line_by_line env_interactive = 0"
    by (simp add: env_interactive_def)
  have m: "CursesSetup \<in> set (main 10000 [] False 100 [])"
    by (simp add: main_def parse_args_def startup_def)
  have q: "CursesSetup \<notin> set (main 10000 [(CHR ''q'', [])] False 100 [])"
    by (simp add: main_def parse_args_def startup_def setup_sighandler_def at_exit_def
                  run.simps run_iter_def getline_def)
  from curses_setup_release_same_condition [of env_interactive SIGINT 10000 "[]" False 100 "[]"]
       curses_setup_release_same_condition
         [of env_interactive SIGINT 10000 "[(CHR ''q'', [])]" False 100 "[]"]
       h m q
  show ?thesis by blast
qed

section \<open>Configuration\<close>

lemma parse_loop_storing:
  "list_all storing pre \<Longrightarrow>
     \<exists>e'. parse_loop e pre = Inr e' \<and> (\<forall>rest. parse_loop e (pre @ rest) = parse_loop e' rest)"
proof (induction pre arbitrary: e)
  case Nil
  then show ?case by simp
next
  case (Cons opt pre)
  obtain c optarg where o: "opt = (c, optarg)" by (cases opt)
  from Cons.prems o have c: "c = CHR ''l'' \<or> c = CHR ''q'' \<or> c = CHR ''s'' \<or> c = CHR ''i''"
    and pre: "list_all storing pre"
    by auto
  from c Cons.IH [OF pre] show ?case
    unfolding o by (elim disjE) simp_all
qed

text \<open>
  C7, as the code has it. When every option before it only stores a value or sets the quiet
  flag, an option \<^verbatim>\<open>getopt_long\<close> does not know, or one whose argument is missing, makes the
  program print the usage text on \<^verbatim>\<open>stderr\<close> and exit with \<^verbatim>\<open>EXIT_FAILURE\<close>, and so does an
  interactive terminal as standard input: these two calls are all the program makes, so no
  handler is installed and no timer armed. The values of the options are never a reason to
  stop: with standard input not a terminal, \<^verbatim>\<open>parse_args\<close> returns whatever they are, and the
  program installs its handlers, arms the timer and runs to its normal end.
\<close>

theorem usage_error_before_arming:
  assumes "list_all storing pre"
  shows "(c \<notin> set ''lqsivh'' \<longrightarrow>
           main D (pre @ (c, optarg) # rest) stdin_isatty now bs
             = [Usage Stderr, Exit EXIT_FAILURE])
       \<and> main D pre True now bs = [Usage Stderr, Exit EXIT_FAILURE]
       \<and> EXIT_FAILURE \<noteq> 0
       \<and> (\<exists>e. parse_args D pre False = Inr e
              \<and> main D pre False now bs = startup e @ run bs @ at_exit e @ [Exit 0])"
proof -
  let ?e0 = "\<lparr>history_size = 0, quiet = False, last_update_time = 0,
               line_by_line = 0, interval = 1\<rparr>"
  from parse_loop_storing [OF assms, of ?e0] obtain e' where
    e': "parse_loop ?e0 pre = Inr e'"
    and app: "\<And>rest. parse_loop ?e0 (pre @ rest) = parse_loop e' rest"
    by blast
  have a: "c \<notin> set ''lqsivh'' \<longrightarrow>
           main D (pre @ (c, optarg) # rest) stdin_isatty now bs
             = [Usage Stderr, Exit EXIT_FAILURE]"
    by (simp add: main_def parse_args_def app usage_and_exit_def EXIT_FAILURE_def
                  EXIT_SUCCESS_def)
  have b: "main D pre True now bs = [Usage Stderr, Exit EXIT_FAILURE]"
    by (simp add: main_def parse_args_def e' usage_and_exit_def EXIT_FAILURE_def
                  EXIT_SUCCESS_def)
  have c: "EXIT_FAILURE \<noteq> 0" by (simp add: EXIT_FAILURE_def)
  have d: "\<exists>e. parse_args D pre False = Inr e
              \<and> main D pre False now bs = startup e @ run bs @ at_exit e @ [Exit 0]"
    by (simp add: main_def parse_args_def e' EXIT_SUCCESS_def)
  from a b c d show ?thesis by (intro conjI)
qed


theorem usage_error_before_arming_witness:
  "list_all storing [(CHR ''i'', ''3''), (CHR ''q'', [])]
   \<and> CHR ''x'' \<notin> set ''lqsivh''
   \<and> main 10000 ([(CHR ''i'', ''3''), (CHR ''q'', [])] @ (CHR ''x'', []) # []) False 100 ''a''
       = [Usage Stderr, Exit EXIT_FAILURE]
   \<and> main 10000 [(CHR ''i'', ''3''), (CHR ''q'', [])] True 100 ''a''
       = [Usage Stderr, Exit EXIT_FAILURE]
   \<and> parse_args 10000 [(CHR ''i'', ''3''), (CHR ''q'', [])] False
       = Inr \<lparr>history_size = 10000, quiet = True, last_update_time = 0, line_by_line = 0,
              interval = 3\<rparr>"
proof -
  have h: "list_all storing [(CHR ''i'', ''3''), (CHR ''q'', [])]" by simp
  have x: "CHR ''x'' \<notin> set ''lqsivh''" by simp
  have p: "parse_args 10000 [(CHR ''i'', ''3''), (CHR ''q'', [])] False
       = Inr \<lparr>history_size = 10000, quiet = True, last_update_time = 0, line_by_line = 0,
              interval = 3\<rparr>"
    by (simp add: parse_args_def atoi_def strtol10_def long_to_int_def LONG_MIN_def LONG_MAX_def isspace_def isdigit_def)
  from usage_error_before_arming [OF h, of "CHR ''x''" 10000 "[]" "[]" False 100 "''a''"] x
  have "main 10000 ([(CHR ''i'', ''3''), (CHR ''q'', [])] @ (CHR ''x'', []) # []) False 100 ''a''
       = [Usage Stderr, Exit EXIT_FAILURE]"
    and "main 10000 [(CHR ''i'', ''3''), (CHR ''q'', [])] True 100 ''a''
       = [Usage Stderr, Exit EXIT_FAILURE]"
    by blast+
  with h x p show ?thesis by (intro conjI)
qed

text \<open>C7 as stated fails: with a non-numeric interval and a size of zero, and standard
  input empty and not a terminal, the program prints no usage text; it stores the interval 0
  and the default size, installs both handlers, arms the timer, runs and exits with
  status 0.\<close>

theorem bad_flag_values_counterexample:
  "parse_args 10000 [(CHR ''i'', ''abc''), (CHR ''s'', ''0'')] False
     = Inr \<lparr>history_size = 10000, quiet = False, last_update_time = 0, line_by_line = 0,
            interval = 0\<rparr>
   \<and> main 10000 [(CHR ''i'', ''abc''), (CHR ''s'', ''0'')] False 100 []
     = [Sigaction SIGINT 0 on_sigint_h, Sigaction SIGALRM SA_RESTART update_display_h,
        Alarm 1, NewLogtop 10000, CursesSetup,
        CursesRelease, StdoutUpdate 10 0, DeleteLogtop, Fflush, Exit 0]"
  by (simp add: main_def parse_args_def atoi_def strtol10_def long_to_int_def LONG_MIN_def LONG_MAX_def isspace_def isdigit_def startup_def
                setup_sighandler_def at_exit_def run.simps run_iter_def getline_def
                EXIT_SUCCESS_def)


end
